theory Spec2Isabelle
  imports Complex_Main "HOL-Library.Word" "HOL-Library.Multiset"
begin

section \<open>The system rule manager of sentinel-golang (core/system/rule_manager.go)\<close>

text \<open>
  The package keeps the active system rules in the package variable \<open>ruleMap\<close>, a Go map
  from metric type to a slice of rule pointers. \<open>LoadRules\<close> builds a fresh map from a
  candidate slice, dropping the rules that fail \<open>IsValidSystemRule\<close>, and hands it to the
  registered update handler together with the callback \<open>onRuleUpdate\<close> that replaces
  \<open>ruleMap\<close>. \<open>GetRules\<close> copies the rules out of the map.

  The embedding is shallow. Rule objects live in an explicit store, because the map holds
  pointers and \<open>GetRules\<close> is specified by what it does not share with the store: a
  \<open>*Rule\<close> is an optional address, the store is the list of the Rule cells allocated so
  far, and allocation appends cells. Package variables are the fields of a state record
  that every function takes and returns. Logging, the time measurement in
  \<open>onRuleUpdate\<close>, the read/write lock and the call of
  \<open>misc.RegisterRuleCheckSlotForResource\<close> write nothing the functions below read and are
  left out.
\<close>

subsection \<open>Data\<close>

text \<open>
  Modelled from the spec: the declarations of \<open>MetricType\<close>, of its enumerators and of the
  struct \<open>Rule\<close> (rule.go of the package) are not among the sources. The spec lists five
  metric types (load average, queuing delay, concurrent in-flight count, inbound QPS, CPU
  usage ratio); \<open>IsValidSystemRule\<close> compares a metric type with \<open>MetricTypeSize\<close> by
  \<open>>=\<close>, so the type is an integer one whose enumerators are closed by that sentinel. It is
  taken as an unsigned 32-bit integer with the enumerators numbered from zero in the order
  above. Nothing below depends on the numbers beyond \<open>CpuUsage < MetricTypeSize\<close>.
\<close>

type_synonym MetricType = "32 word"

definition Load :: MetricType where "Load = 0"
definition AvgRT :: MetricType where "AvgRT = 1"
definition Concurrency :: MetricType where "Concurrency = 2"
definition InboundQPS :: MetricType where "InboundQPS = 3"
definition CpuUsage :: MetricType where "CpuUsage = 4"
definition MetricTypeSize :: MetricType where "MetricTypeSize = 5"

text \<open>
  \<open>TriggerCount\<close> is a Go \<open>float64\<close>. The code only compares it with the constants 0 and 1,
  and an IEEE comparison is exact, so a float64 is a real number, an infinity or NaN, and
  \<open>f64_less\<close> is the IEEE \<open><\<close>: false as soon as one side is NaN. The finite values of the
  model are all the reals, a superset of the finite float64 values.
\<close>

datatype float64 = NaN | NegInf | Finite real | PosInf

fun f64_less :: "float64 \<Rightarrow> float64 \<Rightarrow> bool" where
  "f64_less (Finite x) (Finite y) = (x < y)"
| "f64_less NegInf (Finite y) = True"
| "f64_less NegInf PosInf = True"
| "f64_less (Finite x) PosInf = True"
| "f64_less _ _ = False"

text \<open>
  Modelled from the spec: the struct \<open>Rule\<close> has a metric type, a numeric threshold and
  adaptive-strategy parameters that this package passes through unchanged; \<open>Strategy\<close>
  stands for the latter.
\<close>

record Rule =
  MetricType :: MetricType
  TriggerCount :: float64
  Strategy :: int

datatype error = errors_New string

type_synonym addr = nat

text \<open>A \<open>*Rule\<close>: \<open>None\<close> is the nil pointer.\<close>

type_synonym ptr = "addr option"

text \<open>The store of Rule cells; the address of a cell is its index.\<close>

type_synonym store = "Rule list"

text \<open>\<open>*p\<close>, read only where the code has already found \<open>p\<close> non-nil.\<close>

definition deref :: "store \<Rightarrow> ptr \<Rightarrow> Rule" where
  "deref h p = h ! the p"

text \<open>\<open>type RuleMap map[MetricType][]*Rule\<close>\<close>

type_synonym RuleMap = "MetricType \<rightharpoonup> ptr list"

text \<open>
  The package variables and the store. \<open>ruleMap\<close> starts as the empty map. The third
  package variable, \<open>ruleUpdateHandler\<close>, is a function over the state and cannot be a
  field of it: the functions that read it take it as an argument.
\<close>

record state =
  heap :: store
  ruleMap :: RuleMap

type_synonym 'a action = "state \<Rightarrow> 'a \<times> state"

text \<open>
  \<open>type RuleUpdateHandler func(onRuleUpdate func(rules RuleMap) (err error), rules RuleMap) error\<close>
\<close>

type_synonym RuleUpdateHandler =
  "(RuleMap \<Rightarrow> error option action) \<Rightarrow> RuleMap \<Rightarrow> error option action"

subsection \<open>Validation\<close>

definition IsValidSystemRule :: "store \<Rightarrow> ptr \<Rightarrow> error option" where
  "IsValidSystemRule h rule =
     (if rule = None then
        Some (errors_New ''nil Rule'')
      else if f64_less (TriggerCount (deref h rule)) (Finite 0) then
        Some (errors_New ''negative threshold'')
      else if MetricTypeSize \<le> MetricType (deref h rule) then
        Some (errors_New ''invalid metric type'')
      else if MetricType (deref h rule) = CpuUsage \<and> f64_less (Finite 1) (TriggerCount (deref h rule)) then
        Some (errors_New ''invalid CPU usage, valid range is [0.0, 1.0]'')
      else None)"

subsection \<open>Building the index\<close>

text \<open>
  The loop of \<open>buildRuleMap\<close> over the candidates, with the map under construction as
  accumulator. An invalid rule is skipped (\<open>continue\<close>); a valid one starts the bucket of
  its metric type or is appended to it.
\<close>

fun buildLoop :: "store \<Rightarrow> ptr list \<Rightarrow> RuleMap \<Rightarrow> RuleMap" where
  "buildLoop h [] m = m"
| "buildLoop h (rule # rules) m =
     (case IsValidSystemRule h rule of
        Some err \<Rightarrow> buildLoop h rules m
      | None \<Rightarrow>
          (case m (MetricType (deref h rule)) of
             None \<Rightarrow> buildLoop h rules (m(MetricType (deref h rule) \<mapsto> [rule]))
           | Some rulesOfRes \<Rightarrow>
               buildLoop h rules (m(MetricType (deref h rule) \<mapsto> rulesOfRes @ [rule]))))"

text \<open>A nil slice and an empty one both have length 0 and are both the empty list.\<close>

definition buildRuleMap :: "store \<Rightarrow> ptr list \<Rightarrow> RuleMap" where
  "buildRuleMap h rules =
     (let m = Map.empty in
      if length rules = 0 then m else buildLoop h rules m)"

subsection \<open>Installing and loading\<close>

definition onRuleUpdate :: "RuleMap \<Rightarrow> error option action" where
  "onRuleUpdate r s = (None, s\<lparr>ruleMap := r\<rparr>)"

definition defaultRuleUpdateHandler :: RuleUpdateHandler where
  "defaultRuleUpdateHandler onRuleUpdate' rules = onRuleUpdate' rules"

text \<open>
  \<open>LoadRules\<close>, with the registered handler as first argument. The result is the pair
  \<open>(bool, error)\<close> of the source.
\<close>

definition LoadRules :: "RuleUpdateHandler \<Rightarrow> ptr list \<Rightarrow> (bool \<times> error option) action" where
  "LoadRules ruleUpdateHandler rules s =
     (let m = buildRuleMap (heap s) rules in
      case ruleUpdateHandler onRuleUpdate m s of
        (Some err, s') \<Rightarrow> ((False, Some err), s')
      | (None, s') \<Rightarrow> ((True, None), s'))"

definition ClearRules :: "RuleUpdateHandler \<Rightarrow> error option action" where
  "ClearRules ruleUpdateHandler s =
     (case LoadRules ruleUpdateHandler [] s of ((_, err), s') \<Rightarrow> (err, s'))"

subsection \<open>Reading the rules\<close>

text \<open>
  Go leaves the order in which \<open>range\<close> visits the keys of a map open, and it changes from
  one loop to the next. The functions that range over \<open>ruleMap\<close> take the order of that
  visit as their first argument \<open>ks\<close>; \<open>range_order ks m\<close> says that \<open>ks\<close> is such an
  order for \<open>m\<close>: every key once.
\<close>

definition range_order :: "MetricType list \<Rightarrow> RuleMap \<Rightarrow> bool" where
  "range_order ks m = (distinct ks \<and> set ks = dom m)"

text \<open>The first loop of \<open>GetRules\<close> and \<open>getRules\<close>: the buckets appended in range order.\<close>

definition collect :: "MetricType list \<Rightarrow> RuleMap \<Rightarrow> ptr list" where
  "collect ks m = concat (map (\<lambda>k. case m k of None \<Rightarrow> [] | Some rs \<Rightarrow> rs) ks)"

definition getRules :: "MetricType list \<Rightarrow> state \<Rightarrow> ptr list" where
  "getRules ks s = collect ks (ruleMap s)"

text \<open>
  The second loop of \<open>GetRules\<close>: \<open>ret = append(ret, *r)\<close> stores a copy of the rule in the
  next cell of the backing array of \<open>ret\<close>, which \<open>make\<close> has allocated at the end of the
  store. Dereferencing a nil pointer panics: the result is \<open>None\<close>.
\<close>

fun copyRules :: "ptr list \<Rightarrow> store \<Rightarrow> store option" where
  "copyRules [] h = Some h"
| "copyRules (None # rules) h = None"
| "copyRules (Some a # rules) h = copyRules rules (h @ [deref h (Some a)])"

text \<open>
  \<open>GetRules\<close> returns the slice \<open>ret\<close>, that is the addresses of its cells, and the state
  with the enlarged store.
\<close>

definition GetRules :: "MetricType list \<Rightarrow> state \<Rightarrow> (addr list \<times> state) option" where
  "GetRules ks s =
     (let rules = collect ks (ruleMap s) in
      case copyRules rules (heap s) of
        None \<Rightarrow> None
      | Some h' \<Rightarrow>
          Some ([length (heap s)..<length (heap s) + length rules], s\<lparr>heap := h'\<rparr>))"

text \<open>The elements of a \<open>[]Rule\<close> slice, read from the store.\<close>

definition readSlice :: "store \<Rightarrow> addr list \<Rightarrow> Rule list" where
  "readSlice h sl = map (\<lambda>a. h ! a) sl"

text \<open>What a caller of \<open>GetRules\<close> sees: the elements of the slice when it is returned.\<close>

definition snapshot :: "MetricType list \<Rightarrow> state \<Rightarrow> Rule list option" where
  "snapshot ks s =
     (case GetRules ks s of
        None \<Rightarrow> None
      | Some (ret, s') \<Rightarrow> Some (readSlice (heap s') ret))"

text \<open>
  An assignment to an element of a \<open>[]Rule\<close> slice, or to a field of one, stores a Rule
  in the cell of that element.
\<close>

definition writeCell :: "addr \<times> Rule \<Rightarrow> state \<Rightarrow> state" where
  "writeCell w s = s\<lparr>heap := (heap s)[fst w := snd w]\<rparr>"

definition mutate :: "(addr \<times> Rule) list \<Rightarrow> state \<Rightarrow> state" where
  "mutate ws s = fold writeCell ws s"

subsection \<open>Notions used in the statements\<close>

text \<open>A pointer is nil or the address of an allocated cell; Go has no other pointers.\<close>

definition allocated :: "store \<Rightarrow> ptr \<Rightarrow> bool" where
  "allocated h p = (case p of None \<Rightarrow> True | Some a \<Rightarrow> a < length h)"

definition wf_state :: "state \<Rightarrow> bool" where
  "wf_state s = (\<forall>rs \<in> ran (ruleMap s). \<forall>p \<in> set rs. allocated (heap s) p)"

text \<open>
  The candidates that pass validation and have metric type \<open>k\<close>, in the order of the
  candidate list.
\<close>

definition accepted :: "store \<Rightarrow> MetricType \<Rightarrow> ptr list \<Rightarrow> ptr list" where
  "accepted h k rules =
     filter (\<lambda>rule. IsValidSystemRule h rule = None \<and> MetricType (deref h rule) = k) rules"



subsection \<open>Example data\<close>

text \<open>
  A store with four rules: CPU usage 0.8, CPU usage 5.0 (invalid), load 3 and CPU usage
  1.0; and the state of the package before any load over that store.
\<close>

definition ex_store :: store where
  "ex_store =
     [\<lparr>MetricType = CpuUsage, TriggerCount = Finite 0.8, Strategy = 0\<rparr>,
      \<lparr>MetricType = CpuUsage, TriggerCount = Finite 5, Strategy = 0\<rparr>,
      \<lparr>MetricType = Load, TriggerCount = Finite 3, Strategy = 0\<rparr>,
      \<lparr>MetricType = CpuUsage, TriggerCount = Finite 1, Strategy = 0\<rparr>]"

definition ex_state :: state where
  "ex_state = \<lparr>heap = ex_store, ruleMap = Map.empty\<rparr>"

text \<open>The state after loading the rules at addresses 3, 2 and 0.\<close>

definition ex_loaded :: state where
  "ex_loaded = \<lparr>heap = ex_store, ruleMap = [CpuUsage \<mapsto> [Some 3, Some 0], Load \<mapsto> [Some 2]]\<rparr>"

text \<open>
  The state in which \<open>GetRules\<close> leaves \<open>ex_loaded\<close> when it ranges over Load first, and
  two assignments to elements of the slice it returns.
\<close>

definition ex_copy :: state where
  "ex_copy = \<lparr>heap = ex_store @ [ex_store ! 2, ex_store ! 3, ex_store ! 0],
              ruleMap = [CpuUsage \<mapsto> [Some 3, Some 0], Load \<mapsto> [Some 2]]\<rparr>"

definition ex_writes :: "(addr \<times> Rule) list" where
  "ex_writes =
     [(4, \<lparr>MetricType = Load, TriggerCount = Finite 99, Strategy = 1\<rparr>),
      (6, \<lparr>MetricType = MetricTypeSize, TriggerCount = NaN, Strategy = 0\<rparr>)]"

section \<open>Range orders and NaN thresholds\<close>

text \<open>Every index has a range order: a map over metric types has finitely many keys.\<close>

lemma range_order_exists: "\<exists>ks. range_order ks m"
proof -
  have "finite (dom m)" by simp
  from finite_distinct_list [OF this] obtain ks where "set ks = dom m \<and> distinct ks" ..
  then show ?thesis by (auto simp: range_order_def)
qed

text \<open>A NaN threshold is neither below 0 nor above 1: such a rule passes validation.\<close>

lemma IsValidSystemRule_NaN:
  "p \<noteq> None \<Longrightarrow> TriggerCount (deref h p) = NaN \<Longrightarrow>
     MetricType (deref h p) < MetricTypeSize \<Longrightarrow> IsValidSystemRule h p = None"
  by (simp add: IsValidSystemRule_def not_le)

section \<open>The index built by buildRuleMap\<close>

lemma accepted_Nil: "accepted h k [] = []"
  by (simp add: accepted_def)

lemma accepted_Cons:
  "accepted h k (rule # rules) =
     (if IsValidSystemRule h rule = None \<and> MetricType (deref h rule) = k
      then rule # accepted h k rules else accepted h k rules)"
  by (simp add: accepted_def)

lemma buildLoop_lookup:
  "buildLoop h rules m k =
     (case m k of
        None \<Rightarrow> (if accepted h k rules = [] then None else Some (accepted h k rules))
      | Some rs \<Rightarrow> Some (rs @ accepted h k rules))"
proof (induction rules arbitrary: m)
  case Nil
  then show ?case by (simp add: accepted_Nil split: option.splits)
next
  case (Cons rule rules)
  show ?case
  proof (cases "IsValidSystemRule h rule")
    case (Some err)
    then have "accepted h k (rule # rules) = accepted h k rules"
      by (simp add: accepted_Cons)
    then show ?thesis using Some Cons.IH [of m] by (simp split: option.splits)
  next
    case None
    let ?t = "MetricType (deref h rule)"
    have acc: "accepted h k (rule # rules) =
                 (if ?t = k then rule # accepted h k rules else accepted h k rules)"
      using None by (simp add: accepted_Cons)
    show ?thesis
    proof (cases "m ?t")
      case inner: None
      have "buildLoop h (rule # rules) m k = buildLoop h rules (m(?t \<mapsto> [rule])) k"
        using None inner by simp
      also have "\<dots> = (case m k of
        None \<Rightarrow> (if accepted h k (rule # rules) = [] then None else Some (accepted h k (rule # rules)))
      | Some rs \<Rightarrow> Some (rs @ accepted h k (rule # rules)))"
        unfolding Cons.IH acc using inner by (cases "?t = k") (simp_all split: option.splits)
      finally show ?thesis .
    next
      case inner: (Some rulesOfRes)
      have "buildLoop h (rule # rules) m k = buildLoop h rules (m(?t \<mapsto> rulesOfRes @ [rule])) k"
        using None inner by simp
      also have "\<dots> = (case m k of
        None \<Rightarrow> (if accepted h k (rule # rules) = [] then None else Some (accepted h k (rule # rules)))
      | Some rs \<Rightarrow> Some (rs @ accepted h k (rule # rules)))"
        unfolding Cons.IH acc using inner by (cases "?t = k") (simp_all split: option.splits)
      finally show ?thesis .
    qed
  qed
qed

lemma buildRuleMap_lookup:
  "buildRuleMap h rules k =
     (if accepted h k rules = [] then None else Some (accepted h k rules))"
  by (cases rules) (simp_all add: buildRuleMap_def buildLoop_lookup accepted_Nil del: buildLoop.simps)

lemma copyRules_append:
  assumes "\<forall>p \<in> set rules. \<exists>a. p = Some a \<and> a < length h"
  shows "copyRules rules (h @ ex) = Some (h @ ex @ map (deref h) rules)"
  using assms
proof (induction rules arbitrary: ex)
  case Nil
  then show ?case by simp
next
  case (Cons p rules)
  then obtain a where p: "p = Some a" and a: "a < length h" by auto
  have "deref (h @ ex) (Some a) = deref h (Some a)"
    using a by (simp add: deref_def nth_append)
  then show ?case
    using Cons.IH [of "ex @ [deref h (Some a)]"] Cons.prems p by simp
qed

lemma read_fresh_cells:
  "readSlice (h @ vs) [length h..<length h + length vs] = vs"
proof (rule nth_equalityI)
  show "length (readSlice (h @ vs) [length h..<length h + length vs]) = length vs"
    by (simp add: readSlice_def)
next
  fix i
  assume "i < length (readSlice (h @ vs) [length h..<length h + length vs])"
  then show "readSlice (h @ vs) [length h..<length h + length vs] ! i = vs ! i"
    by (simp add: readSlice_def nth_append)
qed

lemma bucket_buildRuleMap:
  "(case buildRuleMap h rules k of None \<Rightarrow> [] | Some rs \<Rightarrow> rs) = accepted h k rules"
  by (simp add: buildRuleMap_lookup)

lemma collect_buildRuleMap:
  "collect ks (buildRuleMap h rules) = concat (map (\<lambda>k. accepted h k rules) ks)"
  by (simp add: collect_def bucket_buildRuleMap)

lemma dom_buildRuleMap:
  "dom (buildRuleMap h rules) = {k. accepted h k rules \<noteq> []}"
  by (auto simp: dom_def buildRuleMap_lookup)

lemma set_accepted:
  "set (accepted h k rules) =
     {p \<in> set rules. IsValidSystemRule h p = None \<and> MetricType (deref h p) = k}"
  by (auto simp: accepted_def)

lemma mset_accepted_keys:
  assumes "distinct ks"
  shows "mset (concat (map (\<lambda>k. accepted h k rules) ks)) =
         mset (filter (\<lambda>p. IsValidSystemRule h p = None \<and> MetricType (deref h p) \<in> set ks) rules)"
  using assms
proof (induction ks)
  case Nil
  then show ?case by simp
next
  case (Cons k ks)
  then have k: "k \<notin> set ks" and d: "distinct ks" by simp_all
  have split: "mset (accepted h k rules) +
        mset (filter (\<lambda>p. IsValidSystemRule h p = None \<and> MetricType (deref h p) \<in> set ks) rules) =
        mset (filter (\<lambda>p. IsValidSystemRule h p = None \<and> MetricType (deref h p) \<in> set (k # ks)) rules)"
    using k by (induction rules) (auto simp: accepted_Nil accepted_Cons)
  show ?case using Cons.IH [OF d] split by simp
qed

lemma mset_collect_buildRuleMap:
  assumes "range_order ks (buildRuleMap h rules)"
  shows "mset (collect ks (buildRuleMap h rules)) =
         mset (filter (\<lambda>p. IsValidSystemRule h p = None) rules)"
proof -
  from assms have d: "distinct ks" and ks: "set ks = {k. accepted h k rules \<noteq> []}"
    by (simp_all add: range_order_def dom_buildRuleMap)
  have "filter (\<lambda>p. IsValidSystemRule h p = None \<and> MetricType (deref h p) \<in> set ks) rules =
        filter (\<lambda>p. IsValidSystemRule h p = None) rules"
  proof (rule filter_cong [OF refl])
    fix p assume p: "p \<in> set rules"
    show "(IsValidSystemRule h p = None \<and> MetricType (deref h p) \<in> set ks) =
          (IsValidSystemRule h p = None)"
    proof (cases "IsValidSystemRule h p = None")
      case True
      with p have "p \<in> set (accepted h (MetricType (deref h p)) rules)"
        by (simp add: set_accepted)
      then have "accepted h (MetricType (deref h p)) rules \<noteq> []" by auto
      with True ks show ?thesis by simp
    next
      case False
      then show ?thesis by blast
    qed
  qed
  with mset_accepted_keys [OF d, of h rules] show ?thesis
    by (simp add: collect_buildRuleMap)
qed

lemma valid_not_nil: "IsValidSystemRule h p = None \<Longrightarrow> \<exists>a. p = Some a"
  by (cases p) (simp_all add: IsValidSystemRule_def)

lemma GetRules_returns:
  assumes "\<forall>p \<in> set (collect ks (ruleMap s)). \<exists>a. p = Some a \<and> a < length (heap s)"
  shows "GetRules ks s =
           Some ([length (heap s)..<length (heap s) + length (collect ks (ruleMap s))],
                 s\<lparr>heap := heap s @ map (deref (heap s)) (collect ks (ruleMap s))\<rparr>)"
  using copyRules_append [OF assms, of "[]"] by (simp add: GetRules_def Let_def)

lemma snapshot_returns:
  assumes "\<forall>p \<in> set (collect ks (ruleMap s)). \<exists>a. p = Some a \<and> a < length (heap s)"
  shows "snapshot ks s = Some (map (deref (heap s)) (collect ks (ruleMap s)))"
  using read_fresh_cells [of "heap s" "map (deref (heap s)) (collect ks (ruleMap s))"]
  by (simp add: snapshot_def GetRules_returns [OF assms])

lemma LoadRules_default:
  "LoadRules defaultRuleUpdateHandler rules s =
     ((True, None), s\<lparr>ruleMap := buildRuleMap (heap s) rules\<rparr>)"
  by (simp add: LoadRules_def defaultRuleUpdateHandler_def onRuleUpdate_def)


lemma in_collect_iff:
  "p \<in> set (collect ks m) = (\<exists>k \<in> set ks. \<exists>rs. m k = Some rs \<and> p \<in> set rs)"
  unfolding collect_def by (induction ks) (auto split: option.splits)

lemma in_buildRuleMap_bucket:
  "buildRuleMap h rules k = Some rs \<Longrightarrow>
     p \<in> set rs = (p \<in> set rules \<and> IsValidSystemRule h p = None \<and> MetricType (deref h p) = k)"
  by (auto simp: buildRuleMap_lookup set_accepted split: if_splits)

lemma buildRuleMap_holds:
  "p \<in> set rules \<Longrightarrow> IsValidSystemRule h p = None \<Longrightarrow>
     \<exists>rs. buildRuleMap h rules (MetricType (deref h p)) = Some rs \<and> p \<in> set rs"
proof -
  assume "p \<in> set rules" "IsValidSystemRule h p = None"
  then have "p \<in> set (accepted h (MetricType (deref h p)) rules)"
    by (simp add: set_accepted)
  then show ?thesis by (auto simp: buildRuleMap_lookup)
qed

lemma collect_buildRuleMap_ptrs:
  assumes "range_order ks (buildRuleMap h rules)"
  shows "set (collect ks (buildRuleMap h rules)) = {p \<in> set rules. IsValidSystemRule h p = None}"
proof -
  have "set (collect ks (buildRuleMap h rules)) = set_mset (mset (collect ks (buildRuleMap h rules)))"
    by simp
  also have "\<dots> = set_mset (mset (filter (\<lambda>p. IsValidSystemRule h p = None) rules))"
    by (simp only: mset_collect_buildRuleMap [OF assms])
  finally show ?thesis by simp
qed

lemma collect_buildRuleMap_allocated:
  assumes ro: "range_order ks (buildRuleMap h rules)"
      and alloc: "\<forall>p \<in> set rules. allocated h p"
  shows "\<forall>p \<in> set (collect ks (buildRuleMap h rules)). \<exists>a. p = Some a \<and> a < length h"
proof
  fix p assume "p \<in> set (collect ks (buildRuleMap h rules))"
  then have p: "p \<in> set rules" and v: "IsValidSystemRule h p = None"
    by (simp_all add: collect_buildRuleMap_ptrs [OF ro])
  from valid_not_nil [OF v] obtain a where a: "p = Some a" ..
  with alloc p show "\<exists>a. p = Some a \<and> a < length h"
    by (auto simp: allocated_def)
qed

lemma snapshot_after_load:
  assumes ro: "range_order ks (buildRuleMap (heap s) rules)"
      and alloc: "\<forall>p \<in> set rules. allocated (heap s) p"
  shows "snapshot ks (s\<lparr>ruleMap := buildRuleMap (heap s) rules\<rparr>) =
           Some (map (deref (heap s)) (collect ks (buildRuleMap (heap s) rules)))"
  using snapshot_returns [of ks "s\<lparr>ruleMap := buildRuleMap (heap s) rules\<rparr>"]
    collect_buildRuleMap_allocated [OF ro alloc]
  by simp

lemma mset_snapshot_after_load:
  assumes ro: "range_order ks (buildRuleMap h rules)"
  shows "mset (map (deref h) (collect ks (buildRuleMap h rules))) =
         mset (map (deref h) (filter (\<lambda>p. IsValidSystemRule h p = None) rules))"
  using mset_collect_buildRuleMap [OF ro] by (metis mset_map)

lemma valid_by_value:
  "p \<noteq> None \<Longrightarrow> q \<noteq> None \<Longrightarrow> deref h p = deref h q \<Longrightarrow>
     IsValidSystemRule h p = IsValidSystemRule h q"
  by (auto simp: IsValidSystemRule_def)

lemma accepted_filter_valid:
  "accepted h k rules =
     filter (\<lambda>p. MetricType (deref h p) = k) (filter (\<lambda>p. IsValidSystemRule h p = None) rules)"
  by (simp add: accepted_def conj_commute)

lemma buildRuleMap_valid_only:
  assumes "filter (\<lambda>p. IsValidSystemRule h p = None) R' = filter (\<lambda>p. IsValidSystemRule h p = None) R"
  shows "buildRuleMap h R' = buildRuleMap h R"
proof
  fix k
  have "accepted h k R' = accepted h k R"
    using assms by (simp only: accepted_filter_valid)
  then show "buildRuleMap h R' k = buildRuleMap h R k"
    by (simp only: buildRuleMap_lookup)
qed

section \<open>Writes to the cells of a returned slice\<close>

lemma copyRules_extends:
  "copyRules rules h = Some h' \<Longrightarrow> \<exists>ex. h' = h @ ex"
proof (induction rules arbitrary: h)
  case Nil
  then show ?case by simp
next
  case (Cons p rules)
  show ?case
  proof (cases p)
    case None
    with Cons.prems show ?thesis by simp
  next
    case (Some a)
    with Cons.prems have "copyRules rules (h @ [deref h (Some a)]) = Some h'" by simp
    from Cons.IH [OF this] show ?thesis by auto
  qed
qed

lemma copyRules_nil_or_copies:
  assumes "\<forall>p \<in> set rules. allocated h p"
  shows "copyRules rules (h @ ex) =
           (if None \<in> set rules then None else Some (h @ ex @ map (deref h) rules))"
  using assms
proof (induction rules arbitrary: ex)
  case Nil
  then show ?case by simp
next
  case (Cons p rules)
  show ?case
  proof (cases p)
    case None
    then show ?thesis by simp
  next
    case (Some a)
    with Cons.prems have a: "a < length h" by (simp add: allocated_def)
    then have d: "deref (h @ ex) (Some a) = deref h (Some a)"
      by (simp add: deref_def nth_append)
    from Cons.prems have "\<forall>p \<in> set rules. allocated h p" by simp
    from Cons.IH [OF this, of "ex @ [deref h (Some a)]"] Some d show ?thesis by auto
  qed
qed

lemma snapshot_over_prefix:
  assumes ptrs: "\<forall>p \<in> set (collect ks (ruleMap t)). allocated h p"
      and heap: "heap t = h @ ex"
  shows "snapshot ks t =
           (if None \<in> set (collect ks (ruleMap t)) then None
            else Some (map (deref h) (collect ks (ruleMap t))))"
proof -
  let ?rules = "collect ks (ruleMap t)"
  have r: "readSlice ((h @ ex) @ map (deref h) ?rules)
             [length (h @ ex)..<length (h @ ex) + length (map (deref h) ?rules)] =
           map (deref h) ?rules"
    by (rule read_fresh_cells)
  show ?thesis
    using copyRules_nil_or_copies [OF ptrs, of ex] heap r
    by (simp add: snapshot_def GetRules_def Let_def)
qed

lemma wf_state_collect:
  assumes "wf_state s"
  shows "\<forall>p \<in> set (collect ks (ruleMap s)). allocated (heap s) p"
proof
  fix p assume "p \<in> set (collect ks (ruleMap s))"
  then obtain k rs where k: "ruleMap s k = Some rs" and p: "p \<in> set rs"
    by (auto simp: in_collect_iff)
  from k have "rs \<in> ran (ruleMap s)" by (auto simp: ran_def)
  with assms p show "allocated (heap s) p" by (simp add: wf_state_def)
qed

lemma writeCell_fresh:
  assumes "length h \<le> fst w" and "heap t = h @ ex"
  shows "\<exists>ex'. heap (writeCell w t) = h @ ex'" and "ruleMap (writeCell w t) = ruleMap t"
  using assms by (simp_all add: writeCell_def list_update_append)

lemma mutate_fresh:
  assumes "\<forall>w \<in> set ws. length h \<le> fst w" and "heap t = h @ ex"
  shows "(\<exists>ex'. heap (mutate ws t) = h @ ex') \<and> ruleMap (mutate ws t) = ruleMap t"
  using assms
proof (induction ws arbitrary: t ex)
  case Nil
  then show ?case by (simp add: mutate_def)
next
  case (Cons w ws)
  then have w: "length h \<le> fst w" and rest: "\<forall>w \<in> set ws. length h \<le> fst w"
    by simp_all
  from writeCell_fresh [OF w Cons.prems(2)] obtain ex'
    where h: "heap (writeCell w t) = h @ ex'" and m: "ruleMap (writeCell w t) = ruleMap t"
    by blast
  from Cons.IH [OF rest h] m show ?case by (simp add: mutate_def)
qed

section \<open>Evaluating the examples\<close>

lemmas ex_simps = ex_store_def ex_state_def IsValidSystemRule_def deref_def
  Load_def AvgRT_def CpuUsage_def MetricTypeSize_def buildRuleMap_def


lemma ex_load:
  "LoadRules defaultRuleUpdateHandler [Some 3, Some 2, Some 0] ex_state = ((True, None), ex_loaded)"
  by (simp add: LoadRules_default ex_loaded_def ex_simps fun_upd_twist)

lemma ex_range_order: "range_order [Load, CpuUsage] (ruleMap ex_loaded)"
  by (auto simp: range_order_def ex_loaded_def Load_def CpuUsage_def)

lemma ex_GetRules: "GetRules [Load, CpuUsage] ex_loaded = Some ([4, 5, 6], ex_copy)"
    by (simp add: GetRules_def collect_def ex_loaded_def ex_copy_def Load_def CpuUsage_def
        ex_store_def deref_def upt_rec)

lemma ex_wf_state: "wf_state ex_loaded"
    by (auto simp: wf_state_def ran_def ex_loaded_def allocated_def ex_store_def split: if_splits)

lemma ex_mutate: "heap (mutate ex_writes ex_copy) =
     ex_store @ [\<lparr>MetricType = Load, TriggerCount = Finite 99, Strategy = 1\<rparr>, ex_store ! 3,
       \<lparr>MetricType = MetricTypeSize, TriggerCount = NaN, Strategy = 0\<rparr>]"
  by (simp add: mutate_def writeCell_def ex_writes_def ex_copy_def ex_store_def)

lemma getRules_shares_example:
  "getRules [Load] ex_loaded = [Some 2]
   \<and> snapshot [Load] ex_loaded = Some [\<lparr>MetricType = Load, TriggerCount = Finite 3, Strategy = 0\<rparr>]
   \<and> snapshot [Load] (mutate [(2, \<lparr>MetricType = Load, TriggerCount = Finite 4, Strategy = 0\<rparr>)] ex_loaded) =
       Some [\<lparr>MetricType = Load, TriggerCount = Finite 4, Strategy = 0\<rparr>]"
  by (simp add: getRules_def snapshot_def GetRules_def collect_def readSlice_def mutate_def
      writeCell_def ex_loaded_def ex_store_def deref_def Load_def CpuUsage_def)

section \<open>Validation (C3)\<close>

text \<open>
  C3. \<open>IsValidSystemRule\<close> returns nil exactly for a non-nil pointer to a rule whose
  threshold is not negative, whose metric type is below \<open>MetricTypeSize\<close> and whose
  threshold, for a CPU-usage rule, does not exceed 1. In particular a CPU-usage rule with
  threshold 1.0 is valid, one with 1.0001 is rejected, a rule with threshold -1 is rejected
  whatever its metric type, and a rule whose metric type is \<open>MetricTypeSize\<close> or more is
  rejected. "Negative" and "exceeds" are the comparisons of the code, which NaN fails.
\<close>

theorem IsValidSystemRule_nil_iff:
  "(IsValidSystemRule h rule = None) =
     (rule \<noteq> None
      \<and> \<not> f64_less (TriggerCount (deref h rule)) (Finite 0)
      \<and> MetricType (deref h rule) < MetricTypeSize
      \<and> (MetricType (deref h rule) = CpuUsage \<longrightarrow> \<not> f64_less (Finite 1) (TriggerCount (deref h rule))))
   \<and> (p \<noteq> None \<and> MetricType (deref h p) = CpuUsage \<and> TriggerCount (deref h p) = Finite 1
        \<longrightarrow> IsValidSystemRule h p = None)
   \<and> (p \<noteq> None \<and> MetricType (deref h p) = CpuUsage \<and> TriggerCount (deref h p) = Finite 1.0001
        \<longrightarrow> IsValidSystemRule h p \<noteq> None)
   \<and> (TriggerCount (deref h p) = Finite (- 1) \<longrightarrow> IsValidSystemRule h p \<noteq> None)
   \<and> (MetricTypeSize \<le> MetricType (deref h p) \<longrightarrow> IsValidSystemRule h p \<noteq> None)"
proof -
  have iff: "(IsValidSystemRule h rule = None) =
     (rule \<noteq> None
      \<and> \<not> f64_less (TriggerCount (deref h rule)) (Finite 0)
      \<and> MetricType (deref h rule) < MetricTypeSize
      \<and> (MetricType (deref h rule) = CpuUsage \<longrightarrow> \<not> f64_less (Finite 1) (TriggerCount (deref h rule))))"
    by (auto simp: IsValidSystemRule_def not_le)
  have one: "p \<noteq> None \<and> MetricType (deref h p) = CpuUsage \<and> TriggerCount (deref h p) = Finite 1
        \<longrightarrow> IsValidSystemRule h p = None"
    by (simp add: IsValidSystemRule_def CpuUsage_def MetricTypeSize_def)
  have above: "p \<noteq> None \<and> MetricType (deref h p) = CpuUsage \<and> TriggerCount (deref h p) = Finite 1.0001
        \<longrightarrow> IsValidSystemRule h p \<noteq> None"
    by (simp add: IsValidSystemRule_def)
  have neg: "TriggerCount (deref h p) = Finite (- 1) \<longrightarrow> IsValidSystemRule h p \<noteq> None"
    by (simp add: IsValidSystemRule_def)
  have range: "MetricTypeSize \<le> MetricType (deref h p) \<longrightarrow> IsValidSystemRule h p \<noteq> None"
    by (simp add: IsValidSystemRule_def)
  from iff one above neg range show ?thesis by blast
qed

theorem IsValidSystemRule_nil_iff_witness:
  "IsValidSystemRule [\<lparr>MetricType = CpuUsage, TriggerCount = Finite 1, Strategy = 0\<rparr>] (Some 0) = None
   \<and> IsValidSystemRule [\<lparr>MetricType = CpuUsage, TriggerCount = Finite 1.0001, Strategy = 0\<rparr>] (Some 0) \<noteq> None
   \<and> IsValidSystemRule [\<lparr>MetricType = Load, TriggerCount = Finite (- 1), Strategy = 0\<rparr>] (Some 0) \<noteq> None
   \<and> IsValidSystemRule [\<lparr>MetricType = MetricTypeSize, TriggerCount = Finite 0, Strategy = 0\<rparr>] (Some 0) \<noteq> None
   \<and> IsValidSystemRule [] None \<noteq> None
   \<and> IsValidSystemRule [\<lparr>MetricType = Load, TriggerCount = Finite 7, Strategy = 0\<rparr>] (Some 0) = None"
  using
    IsValidSystemRule_nil_iff
      [of "[\<lparr>MetricType = CpuUsage, TriggerCount = Finite 1, Strategy = 0\<rparr>]" "Some 0" "Some 0"]
    IsValidSystemRule_nil_iff
      [of "[\<lparr>MetricType = CpuUsage, TriggerCount = Finite 1.0001, Strategy = 0\<rparr>]" "Some 0" "Some 0"]
    IsValidSystemRule_nil_iff
      [of "[\<lparr>MetricType = Load, TriggerCount = Finite (- 1), Strategy = 0\<rparr>]" "Some 0" "Some 0"]
    IsValidSystemRule_nil_iff
      [of "[\<lparr>MetricType = MetricTypeSize, TriggerCount = Finite 0, Strategy = 0\<rparr>]" "Some 0" "Some 0"]
    IsValidSystemRule_nil_iff [of "[]" None None]
    IsValidSystemRule_nil_iff
      [of "[\<lparr>MetricType = Load, TriggerCount = Finite 7, Strategy = 0\<rparr>]" "Some 0" "Some 0"]
  by (simp add: deref_def Load_def CpuUsage_def MetricTypeSize_def)

section \<open>The default handler never fails (C10)\<close>

text \<open>
  C10. With the default update handler, \<open>LoadRules\<close> returns \<open>(true, nil)\<close> for every
  candidate list and every state, nil pointers and invalid rules included, and installs the
  index built from the candidates: \<open>onRuleUpdate\<close> returns nil unconditionally and the
  default handler forwards its result, so the failure branch is never taken.
\<close>

theorem LoadRules_default_succeeds:
  "LoadRules defaultRuleUpdateHandler rules s =
     ((True, None), s\<lparr>ruleMap := buildRuleMap (heap s) rules\<rparr>)
   \<and> fst (onRuleUpdate m s) = None
   \<and> defaultRuleUpdateHandler onRuleUpdate m s = onRuleUpdate m s
   \<and> fst (fst (LoadRules defaultRuleUpdateHandler rules s)) \<noteq> False"
  by (simp add: LoadRules_def defaultRuleUpdateHandler_def onRuleUpdate_def)

section \<open>Order within a bucket (C7)\<close>

text \<open>
  C7. The bucket that \<open>buildRuleMap\<close> holds for a metric type \<open>k\<close> is the list of the
  candidates that pass validation and have metric type \<open>k\<close>, in the order in which they
  occur in the candidate list; and the index has a bucket for \<open>k\<close> exactly when there is
  such a candidate (a bucket is created by the first accepted rule of its type).
\<close>

theorem buildRuleMap_bucket_order:
  "(buildRuleMap h rules k = Some rs \<longrightarrow>
      rs = filter (\<lambda>rule. IsValidSystemRule h rule = None \<and> MetricType (deref h rule) = k) rules)
   \<and> ((buildRuleMap h rules k = None) =
      (filter (\<lambda>rule. IsValidSystemRule h rule = None \<and> MetricType (deref h rule) = k) rules = []))"
  using buildRuleMap_lookup [of h rules k] by (auto simp: accepted_def split: if_splits)

theorem buildRuleMap_bucket_order_witness:
  "buildRuleMap ex_store [Some 3, Some 1, Some 2, None, Some 0] CpuUsage = Some [Some 3, Some 0]
   \<and> [Some 3, Some 0] =
       filter (\<lambda>rule. IsValidSystemRule ex_store rule = None \<and> MetricType (deref ex_store rule) = CpuUsage)
         [Some 3, Some 1, Some 2, None, Some 0]
   \<and> buildRuleMap ex_store [Some 3, Some 1, Some 2, None, Some 0] AvgRT = None"
proof -
  have b: "buildRuleMap ex_store [Some 3, Some 1, Some 2, None, Some 0] CpuUsage = Some [Some 3, Some 0]"
    by (simp add: ex_simps)
  have n: "filter (\<lambda>rule. IsValidSystemRule ex_store rule = None \<and> MetricType (deref ex_store rule) = AvgRT)
         [Some 3, Some 1, Some 2, None, Some 0] = []"
    by (simp add: ex_simps)
  from b n
    buildRuleMap_bucket_order [of ex_store "[Some 3, Some 1, Some 2, None, Some 0]" CpuUsage "[Some 3, Some 0]"]
    buildRuleMap_bucket_order [of ex_store "[Some 3, Some 1, Some 2, None, Some 0]" AvgRT "[]"]
  show ?thesis by simp
qed

section \<open>Loading valid rules and reading them back (C1)\<close>

text \<open>
  C1. Let every pointer of the candidate list \<open>R\<close> be valid (and point into the store).
  After \<open>LoadRules\<close> with the default handler, \<open>GetRules\<close> returns, whatever the order of
  its range loop, a slice whose elements are exactly the rules of \<open>R\<close>, as a set and even
  with their multiplicities; every rule of \<open>R\<close> is held by the bucket of its own metric
  type, and a bucket for \<open>k\<close> holds only rules of \<open>R\<close> of metric type \<open>k\<close>.
\<close>

theorem LoadRules_GetRules_valid:
  assumes valid: "\<forall>p \<in> set R. IsValidSystemRule (heap s) p = None"
      and alloc: "\<forall>p \<in> set R. allocated (heap s) p"
      and load: "LoadRules defaultRuleUpdateHandler R s = (res, s1)"
      and ro: "range_order ks (ruleMap s1)"
  shows "\<exists>ret s2. GetRules ks s1 = Some (ret, s2)
           \<and> set (readSlice (heap s2) ret) = deref (heap s) ` set R
           \<and> mset (readSlice (heap s2) ret) = mset (map (deref (heap s)) R)
           \<and> (\<forall>p \<in> set R. \<exists>rs. ruleMap s1 (MetricType (deref (heap s) p)) = Some rs \<and> p \<in> set rs)
           \<and> (\<forall>k rs. ruleMap s1 k = Some rs \<longrightarrow>
                (\<forall>p \<in> set rs. p \<in> set R \<and> MetricType (deref (heap s) p) = k))"
proof -
  let ?h = "heap s"
  let ?m = "buildRuleMap ?h R"
  from load have s1: "s1 = s\<lparr>ruleMap := ?m\<rparr>"
    by (simp add: LoadRules_default)
  with ro have ro': "range_order ks ?m" by simp
  have all: "filter (\<lambda>p. IsValidSystemRule ?h p = None) R = R"
    using valid by simp
  have ptrs: "\<forall>p \<in> set (collect ks (ruleMap s1)). \<exists>a. p = Some a \<and> a < length (heap s1)"
    using collect_buildRuleMap_allocated [OF ro' alloc] s1 by simp
  let ?vals = "map (deref ?h) (collect ks ?m)"
  let ?ret = "[length ?h..<length ?h + length (collect ks ?m)]"
  let ?s2 = "s1\<lparr>heap := ?h @ ?vals\<rparr>"
  have get: "GetRules ks s1 = Some (?ret, ?s2)"
    using GetRules_returns [OF ptrs] s1 by simp
  have read: "readSlice (heap ?s2) ?ret = ?vals"
    using read_fresh_cells [of ?h ?vals] by simp
  have m: "mset ?vals = mset (map (deref ?h) R)"
    using mset_snapshot_after_load [OF ro'] all by simp
  then have "set_mset (mset ?vals) = set_mset (mset (map (deref ?h) R))" by simp
  then have st: "set ?vals = deref ?h ` set R" by simp
  have held: "\<forall>p \<in> set R. \<exists>rs. ruleMap s1 (MetricType (deref ?h p)) = Some rs \<and> p \<in> set rs"
    using buildRuleMap_holds [of _ R ?h] valid s1 by simp
  have keyed: "\<forall>k rs. ruleMap s1 k = Some rs \<longrightarrow>
                (\<forall>p \<in> set rs. p \<in> set R \<and> MetricType (deref ?h p) = k)"
    using in_buildRuleMap_bucket [of ?h R] s1 by simp
  from get read m st held keyed show ?thesis by (simp del: set_map mset_map)
qed

theorem LoadRules_GetRules_valid_witness:
  "IsValidSystemRule (heap ex_state) (Some 3) = None
   \<and> IsValidSystemRule (heap ex_state) (Some 2) = None
   \<and> IsValidSystemRule (heap ex_state) (Some 0) = None
   \<and> LoadRules defaultRuleUpdateHandler [Some 3, Some 2, Some 0] ex_state = ((True, None), ex_loaded)
   \<and> range_order [Load, CpuUsage] (ruleMap ex_loaded)
   \<and> (\<exists>ret s2. GetRules [Load, CpuUsage] ex_loaded = Some (ret, s2)
         \<and> set (readSlice (heap s2) ret) = {ex_store ! 3, ex_store ! 2, ex_store ! 0}
         \<and> ruleMap ex_loaded CpuUsage = Some [Some 3, Some 0]
         \<and> ruleMap ex_loaded Load = Some [Some 2])"
proof -
  have valid: "\<forall>p \<in> set [Some 3, Some 2, Some 0]. IsValidSystemRule (heap ex_state) p = None"
    by (simp add: ex_simps)
  have alloc: "\<forall>p \<in> set [Some 3, Some 2, Some 0]. allocated (heap ex_state) p"
    by (simp add: ex_simps allocated_def)
  have idx: "ruleMap ex_loaded CpuUsage = Some [Some 3, Some 0]" "ruleMap ex_loaded Load = Some [Some 2]"
    by (simp_all add: ex_loaded_def Load_def CpuUsage_def)
  from LoadRules_GetRules_valid [OF valid alloc ex_load ex_range_order]
  obtain ret s2 where "GetRules [Load, CpuUsage] ex_loaded = Some (ret, s2)"
    and "set (readSlice (heap s2) ret) = deref (heap ex_state) ` set [Some 3, Some 2, Some 0]"
    by blast
  then have "\<exists>ret s2. GetRules [Load, CpuUsage] ex_loaded = Some (ret, s2)
         \<and> set (readSlice (heap s2) ret) = {ex_store ! 3, ex_store ! 2, ex_store ! 0}"
    by (simp add: deref_def ex_state_def)
  with valid ex_load ex_range_order idx show ?thesis by simp
qed

section \<open>Loading a mix of valid and invalid rules (C4)\<close>

text \<open>
  C4. For every candidate list \<open>R\<close> (of pointers into the store), \<open>LoadRules\<close> with the
  default handler succeeds. The snapshot then holds the rules of the valid candidates, with
  their multiplicities: every valid rule is present and the rule of an invalid non-nil
  candidate is absent. The index holds exactly the valid candidates, every rule in it
  passes \<open>IsValidSystemRule\<close>, and it is the index of every other candidate list with the
  same valid candidates in the same order, however many invalid ones that list has and
  wherever they sit.
\<close>

theorem LoadRules_mixed:
  assumes alloc: "\<forall>p \<in> set R. allocated (heap s) p"
      and load: "LoadRules defaultRuleUpdateHandler R s = (res, s1)"
      and ro: "range_order ks (ruleMap s1)"
  shows "res = (True, None)
     \<and> (\<exists>xs. snapshot ks s1 = Some xs
          \<and> mset xs = mset (map (deref (heap s)) (filter (\<lambda>p. IsValidSystemRule (heap s) p = None) R))
          \<and> (\<forall>p \<in> set R. IsValidSystemRule (heap s) p = None \<longrightarrow> deref (heap s) p \<in> set xs)
          \<and> (\<forall>p \<in> set R. p \<noteq> None \<and> IsValidSystemRule (heap s) p \<noteq> None \<longrightarrow> deref (heap s) p \<notin> set xs))
     \<and> (\<forall>p \<in> set R. (p \<in> set (getRules ks s1)) = (IsValidSystemRule (heap s) p = None))
     \<and> (\<forall>k rs. ruleMap s1 k = Some rs \<longrightarrow> (\<forall>p \<in> set rs. IsValidSystemRule (heap s) p = None))
     \<and> (\<forall>R'. filter (\<lambda>p. IsValidSystemRule (heap s) p = None) R' =
               filter (\<lambda>p. IsValidSystemRule (heap s) p = None) R
             \<longrightarrow> buildRuleMap (heap s) R' = ruleMap s1)"
proof -
  let ?h = "heap s"
  let ?m = "buildRuleMap ?h R"
  let ?V = "filter (\<lambda>p. IsValidSystemRule ?h p = None) R"
  from load have res: "res = (True, None)" and s1: "s1 = s\<lparr>ruleMap := ?m\<rparr>"
    by (simp_all add: LoadRules_default)
  with ro have ro': "range_order ks ?m" by simp
  let ?xs = "map (deref ?h) (collect ks ?m)"
  have snap: "snapshot ks s1 = Some ?xs"
    using snapshot_after_load [OF ro' alloc] s1 by simp
  have m: "mset ?xs = mset (map (deref ?h) ?V)"
    by (rule mset_snapshot_after_load [OF ro'])
  have ptrs: "set (collect ks ?m) = {p \<in> set R. IsValidSystemRule ?h p = None}"
    by (rule collect_buildRuleMap_ptrs [OF ro'])
  have present: "\<forall>p \<in> set R. IsValidSystemRule ?h p = None \<longrightarrow> deref ?h p \<in> set ?xs"
    using ptrs by auto
  have absent: "\<forall>p \<in> set R. p \<noteq> None \<and> IsValidSystemRule ?h p \<noteq> None \<longrightarrow> deref ?h p \<notin> set ?xs"
  proof (intro ballI impI notI)
    fix p assume p: "p \<noteq> None \<and> IsValidSystemRule ?h p \<noteq> None" and "deref ?h p \<in> set ?xs"
    then obtain q where q: "IsValidSystemRule ?h q = None" and eq: "deref ?h p = deref ?h q"
      using ptrs by auto
    from valid_not_nil [OF q] have "q \<noteq> None" by auto
    with p eq q valid_by_value [of p q ?h] show False by simp
  qed
  have index: "\<forall>p \<in> set R. (p \<in> set (getRules ks s1)) = (IsValidSystemRule ?h p = None)"
    using ptrs s1 by (simp add: getRules_def)
  have inv: "\<forall>k rs. ruleMap s1 k = Some rs \<longrightarrow> (\<forall>p \<in> set rs. IsValidSystemRule ?h p = None)"
    using in_buildRuleMap_bucket [of ?h R] s1 by simp
  have indep: "\<forall>R'. filter (\<lambda>p. IsValidSystemRule ?h p = None) R' = ?V \<longrightarrow> buildRuleMap ?h R' = ruleMap s1"
  proof (intro allI impI)
    fix R'
    assume "filter (\<lambda>p. IsValidSystemRule ?h p = None) R' = ?V"
    then have "buildRuleMap ?h R' = ?m" by (rule buildRuleMap_valid_only)
    also have "?m = ruleMap s1" using s1 by simp
    finally show "buildRuleMap ?h R' = ruleMap s1" .
  qed
  from snap m present absent have snapshot:
    "\<exists>xs. snapshot ks s1 = Some xs
          \<and> mset xs = mset (map (deref ?h) ?V)
          \<and> (\<forall>p \<in> set R. IsValidSystemRule ?h p = None \<longrightarrow> deref ?h p \<in> set xs)
          \<and> (\<forall>p \<in> set R. p \<noteq> None \<and> IsValidSystemRule ?h p \<noteq> None \<longrightarrow> deref ?h p \<notin> set xs)"
    by (intro exI [of _ ?xs] conjI)
  from res snapshot index inv indep show ?thesis by (intro conjI)
qed

theorem LoadRules_mixed_witness:
  "allocated (heap ex_state) (Some 0) \<and> allocated (heap ex_state) (Some 1)
   \<and> IsValidSystemRule (heap ex_state) (Some 1) \<noteq> None
   \<and> LoadRules defaultRuleUpdateHandler [Some 0, Some 1] ex_state =
       ((True, None), ex_state\<lparr>ruleMap := [CpuUsage \<mapsto> [Some 0]]\<rparr>)
   \<and> range_order [CpuUsage] (ruleMap (ex_state\<lparr>ruleMap := [CpuUsage \<mapsto> [Some 0]]\<rparr>))
   \<and> snapshot [CpuUsage] (ex_state\<lparr>ruleMap := [CpuUsage \<mapsto> [Some 0]]\<rparr>) =
       Some [\<lparr>MetricType = CpuUsage, TriggerCount = Finite 0.8, Strategy = 0\<rparr>]
   \<and> buildRuleMap (heap ex_state) [None, Some 0] = [CpuUsage \<mapsto> [Some 0]]"
proof -
  let ?s1 = "ex_state\<lparr>ruleMap := [CpuUsage \<mapsto> [Some 0]]\<rparr>"
  have alloc: "\<forall>p \<in> set [Some 0, Some 1]. allocated (heap ex_state) p"
    by (simp add: ex_simps allocated_def)
  have load: "LoadRules defaultRuleUpdateHandler [Some 0, Some 1] ex_state = ((True, None), ?s1)"
    by (simp add: LoadRules_default ex_simps)
  have ro: "range_order [CpuUsage] (ruleMap ?s1)"
    by (simp add: range_order_def)
  have bad: "IsValidSystemRule (heap ex_state) (Some 1) \<noteq> None"
    by (simp add: ex_simps)
  have vs: "filter (\<lambda>p. IsValidSystemRule (heap ex_state) p = None) [Some 0, Some 1] = [Some 0]"
    by (simp add: ex_simps)
  have vs': "filter (\<lambda>p. IsValidSystemRule (heap ex_state) p = None) [None, Some 0] = [Some 0]"
    by (simp add: ex_simps)
  note t = LoadRules_mixed [OF alloc load ro]
  from t obtain xs where xs: "snapshot [CpuUsage] ?s1 = Some xs"
    and m: "mset xs = mset (map (deref (heap ex_state))
              (filter (\<lambda>p. IsValidSystemRule (heap ex_state) p = None) [Some 0, Some 1]))"
    by blast
  from m have "xs = [\<lparr>MetricType = CpuUsage, TriggerCount = Finite 0.8, Strategy = 0\<rparr>]"
    unfolding vs by (simp add: ex_simps)
  with xs have snap: "snapshot [CpuUsage] ?s1 =
       Some [\<lparr>MetricType = CpuUsage, TriggerCount = Finite 0.8, Strategy = 0\<rparr>]"
    by simp
  from t have "\<forall>R'. filter (\<lambda>p. IsValidSystemRule (heap ex_state) p = None) R' =
               filter (\<lambda>p. IsValidSystemRule (heap ex_state) p = None) [Some 0, Some 1]
             \<longrightarrow> buildRuleMap (heap ex_state) R' = ruleMap ?s1"
    by (elim conjE)
  then have "filter (\<lambda>p. IsValidSystemRule (heap ex_state) p = None) [None, Some 0] =
               filter (\<lambda>p. IsValidSystemRule (heap ex_state) p = None) [Some 0, Some 1]
             \<longrightarrow> buildRuleMap (heap ex_state) [None, Some 0] = ruleMap ?s1"
    by (rule spec)
  with vs vs' have indep: "buildRuleMap (heap ex_state) [None, Some 0] = ruleMap ?s1"
    by simp
  from alloc bad load ro snap indep show ?thesis by simp
qed

section \<open>Clearing the rules (C5)\<close>

text \<open>
  C5. \<open>buildRuleMap\<close> of an empty (or nil) candidate slice is the empty index, and
  \<open>ClearRules\<close> is \<open>LoadRules\<close> of the nil slice with its boolean result dropped, whatever
  the handler. With the default handler it returns nil and installs the empty index in
  every state; \<open>GetRules\<close> then ranges over no key and returns an empty slice, whatever
  rules were active before.
\<close>

theorem ClearRules_empties:
  "buildRuleMap h [] = Map.empty
   \<and> ClearRules handler s = (snd (fst (LoadRules handler [] s)), snd (LoadRules handler [] s))
   \<and> ClearRules defaultRuleUpdateHandler s = (None, s\<lparr>ruleMap := Map.empty\<rparr>)
   \<and> (range_order ks (ruleMap (snd (ClearRules defaultRuleUpdateHandler s))) \<longrightarrow>
        ks = []
        \<and> GetRules ks (snd (ClearRules defaultRuleUpdateHandler s)) =
            Some ([], snd (ClearRules defaultRuleUpdateHandler s))
        \<and> snapshot ks (snd (ClearRules defaultRuleUpdateHandler s)) = Some [])"
proof -
  have b: "buildRuleMap h [] = Map.empty" for h
    by (simp add: buildRuleMap_def)
  have c: "ClearRules handler s = (snd (fst (LoadRules handler [] s)), snd (LoadRules handler [] s))"
    by (simp add: ClearRules_def split: prod.splits)
  have d: "ClearRules defaultRuleUpdateHandler s = (None, s\<lparr>ruleMap := Map.empty\<rparr>)"
    by (simp add: ClearRules_def LoadRules_default b)
  have g: "GetRules [] (s\<lparr>ruleMap := Map.empty\<rparr>) = Some ([], s\<lparr>ruleMap := Map.empty\<rparr>)"
    by (simp add: GetRules_def collect_def)
  then have sn: "snapshot [] (s\<lparr>ruleMap := Map.empty\<rparr>) = Some []"
    by (simp add: snapshot_def readSlice_def)
  have "range_order ks (ruleMap (snd (ClearRules defaultRuleUpdateHandler s))) \<longrightarrow>
        ks = []
        \<and> GetRules ks (snd (ClearRules defaultRuleUpdateHandler s)) =
            Some ([], snd (ClearRules defaultRuleUpdateHandler s))
        \<and> snapshot ks (snd (ClearRules defaultRuleUpdateHandler s)) = Some []"
    using g sn by (simp add: d range_order_def)
  with b c d show ?thesis by (intro conjI)
qed

theorem ClearRules_empties_witness:
  "ruleMap ex_loaded CpuUsage = Some [Some 3, Some 0]
   \<and> ClearRules defaultRuleUpdateHandler ex_loaded = (None, ex_state)
   \<and> range_order [] (ruleMap ex_state)
   \<and> GetRules [] ex_state = Some ([], ex_state)
   \<and> snapshot [] ex_state = Some []"
proof -
  note t = ClearRules_empties [of ex_store defaultRuleUpdateHandler ex_loaded "[]"]
  have e: "ex_loaded\<lparr>ruleMap := Map.empty\<rparr> = ex_state"
    by (simp add: ex_loaded_def ex_state_def)
  from t have "ClearRules defaultRuleUpdateHandler ex_loaded = (None, ex_loaded\<lparr>ruleMap := Map.empty\<rparr>)"
    by blast
  with e have c: "ClearRules defaultRuleUpdateHandler ex_loaded = (None, ex_state)"
    by simp
  have ro: "range_order [] (ruleMap ex_state)"
    by (simp add: range_order_def ex_state_def)
  from t have "range_order [] (ruleMap (snd (ClearRules defaultRuleUpdateHandler ex_loaded))) \<longrightarrow>
        GetRules [] (snd (ClearRules defaultRuleUpdateHandler ex_loaded)) =
            Some ([], snd (ClearRules defaultRuleUpdateHandler ex_loaded))
        \<and> snapshot [] (snd (ClearRules defaultRuleUpdateHandler ex_loaded)) = Some []"
    by blast
  with ro have g: "GetRules [] ex_state = Some ([], ex_state) \<and> snapshot [] ex_state = Some []"
    by (simp add: c)
  have i: "ruleMap ex_loaded CpuUsage = Some [Some 3, Some 0]"
    by (simp add: ex_loaded_def CpuUsage_def Load_def)
  from i c ro g show ?thesis by simp
qed

section \<open>Loading only invalid rules (C9)\<close>

text \<open>
  C9. If every candidate fails validation (in particular if the list is nil or empty),
  \<open>LoadRules\<close> with the default handler still returns \<open>(true, nil)\<close> and installs the empty
  index: the rules active before are gone, the state is the one \<open>ClearRules\<close> leaves, and
  the snapshot is empty.
\<close>

theorem LoadRules_all_invalid:
  assumes "\<forall>p \<in> set R. IsValidSystemRule (heap s) p \<noteq> None"
  shows "LoadRules defaultRuleUpdateHandler R s = ((True, None), s\<lparr>ruleMap := Map.empty\<rparr>)
       \<and> snd (LoadRules defaultRuleUpdateHandler R s) = snd (ClearRules defaultRuleUpdateHandler s)
       \<and> fst (ClearRules defaultRuleUpdateHandler s) = None
       \<and> snapshot [] (snd (LoadRules defaultRuleUpdateHandler R s)) = Some []
       \<and> range_order [] (ruleMap (snd (LoadRules defaultRuleUpdateHandler R s)))"
proof -
  have "filter (\<lambda>p. IsValidSystemRule (heap s) p = None) R =
        filter (\<lambda>p. IsValidSystemRule (heap s) p = None) []"
    using assms by simp
  then have "buildRuleMap (heap s) R = buildRuleMap (heap s) []"
    by (rule buildRuleMap_valid_only)
  then have m: "buildRuleMap (heap s) R = Map.empty"
    by (simp add: buildRuleMap_def)
  have l: "LoadRules defaultRuleUpdateHandler R s = ((True, None), s\<lparr>ruleMap := Map.empty\<rparr>)"
    by (simp add: LoadRules_default m)
  have c: "ClearRules defaultRuleUpdateHandler s = (None, s\<lparr>ruleMap := Map.empty\<rparr>)"
    by (simp add: ClearRules_def LoadRules_default buildRuleMap_def)
  have sn: "snapshot [] (s\<lparr>ruleMap := Map.empty\<rparr>) = Some []"
    by (simp add: snapshot_def GetRules_def collect_def readSlice_def)
  have ro: "range_order [] (ruleMap (s\<lparr>ruleMap := Map.empty\<rparr>))"
    by (simp add: range_order_def)
  from l c sn ro show ?thesis by simp
qed

theorem LoadRules_all_invalid_witness:
  "IsValidSystemRule (heap ex_loaded) (Some 1) \<noteq> None
   \<and> IsValidSystemRule (heap ex_loaded) None \<noteq> None
   \<and> ruleMap ex_loaded Load = Some [Some 2]
   \<and> LoadRules defaultRuleUpdateHandler [Some 1, None] ex_loaded = ((True, None), ex_state)
   \<and> snd (ClearRules defaultRuleUpdateHandler ex_loaded) = ex_state
   \<and> snapshot [] ex_state = Some []"
proof -
  have inv: "\<forall>p \<in> set [Some 1, None]. IsValidSystemRule (heap ex_loaded) p \<noteq> None"
    by (simp add: ex_loaded_def ex_simps)
  have e: "ex_loaded\<lparr>ruleMap := Map.empty\<rparr> = ex_state"
    by (simp add: ex_loaded_def ex_state_def)
  note t = LoadRules_all_invalid [OF inv]
  from t e have l: "LoadRules defaultRuleUpdateHandler [Some 1, None] ex_loaded = ((True, None), ex_state)"
    by simp
  from t have "snd (LoadRules defaultRuleUpdateHandler [Some 1, None] ex_loaded) =
               snd (ClearRules defaultRuleUpdateHandler ex_loaded)"
    by blast
  with l have c: "snd (ClearRules defaultRuleUpdateHandler ex_loaded) = ex_state"
    by simp
  from t have "snapshot [] (snd (LoadRules defaultRuleUpdateHandler [Some 1, None] ex_loaded)) = Some []"
    by blast
  with l have sn: "snapshot [] ex_state = Some []"
    by simp
  have i: "ruleMap ex_loaded Load = Some [Some 2]"
    by (simp add: ex_loaded_def CpuUsage_def Load_def)
  from inv i l c sn show ?thesis by simp
qed

section \<open>Loading twice (C8)\<close>

text \<open>
  C8. Loading the same candidate list twice in a row with the default handler leaves the
  state that loading it once leaves (for every list of pointers into the store, valid or
  not). Hence the snapshots after one and after two loads hold the same rules with the
  same multiplicities, and are the same sequence when the two range loops visit the keys
  in the same order.
\<close>

theorem LoadRules_twice:
  assumes alloc: "\<forall>p \<in> set R. allocated (heap s) p"
      and once: "LoadRules defaultRuleUpdateHandler R s = (res1, s1)"
      and twice: "LoadRules defaultRuleUpdateHandler R s1 = (res2, s2)"
      and ro2: "range_order ks2 (ruleMap s2)"
      and ro1: "range_order ks1 (ruleMap s1)"
  shows "s2 = s1
       \<and> (\<exists>xs ys. snapshot ks2 s2 = Some xs \<and> snapshot ks1 s1 = Some ys
             \<and> mset xs = mset ys \<and> (ks2 = ks1 \<longrightarrow> xs = ys))"
proof -
  let ?h = "heap s"
  let ?m = "buildRuleMap ?h R"
  from once have s1: "s1 = s\<lparr>ruleMap := ?m\<rparr>"
    by (simp add: LoadRules_default)
  from twice have "s2 = s1\<lparr>ruleMap := buildRuleMap (heap s1) R\<rparr>"
    by (simp add: LoadRules_default)
  with s1 have eq: "s2 = s1" by simp
  from ro1 ro2 s1 eq have r1: "range_order ks1 ?m" and r2: "range_order ks2 ?m"
    by simp_all
  let ?xs = "map (deref ?h) (collect ks2 ?m)"
  let ?ys = "map (deref ?h) (collect ks1 ?m)"
  have x: "snapshot ks2 s2 = Some ?xs"
    using snapshot_after_load [OF r2 alloc] s1 eq by simp
  have y: "snapshot ks1 s1 = Some ?ys"
    using snapshot_after_load [OF r1 alloc] s1 by simp
  have m: "mset ?xs = mset ?ys"
    by (simp only: mset_snapshot_after_load [OF r1] mset_snapshot_after_load [OF r2])
  have o: "ks2 = ks1 \<longrightarrow> ?xs = ?ys" by simp
  from x y m o have "\<exists>xs ys. snapshot ks2 s2 = Some xs \<and> snapshot ks1 s1 = Some ys
             \<and> mset xs = mset ys \<and> (ks2 = ks1 \<longrightarrow> xs = ys)"
    by (intro exI [of _ ?xs] exI [of _ ?ys] conjI)
  with eq show ?thesis by (intro conjI)
qed

theorem LoadRules_twice_witness:
  "allocated (heap ex_state) (Some 3) \<and> allocated (heap ex_state) (Some 2)
   \<and> allocated (heap ex_state) (Some 0)
   \<and> LoadRules defaultRuleUpdateHandler [Some 3, Some 2, Some 0] ex_state = ((True, None), ex_loaded)
   \<and> LoadRules defaultRuleUpdateHandler [Some 3, Some 2, Some 0] ex_loaded = ((True, None), ex_loaded)
   \<and> range_order [Load, CpuUsage] (ruleMap ex_loaded)
   \<and> range_order [CpuUsage, Load] (ruleMap ex_loaded)
   \<and> (\<exists>xs ys. snapshot [Load, CpuUsage] ex_loaded = Some xs
          \<and> snapshot [CpuUsage, Load] ex_loaded = Some ys \<and> mset xs = mset ys)"
proof -
  have alloc: "\<forall>p \<in> set [Some 3, Some 2, Some 0]. allocated (heap ex_state) p"
    by (simp add: ex_simps allocated_def)
  have twice: "LoadRules defaultRuleUpdateHandler [Some 3, Some 2, Some 0] ex_loaded = ((True, None), ex_loaded)"
    by (simp add: LoadRules_default ex_loaded_def ex_simps fun_upd_twist)
  have ro: "range_order [CpuUsage, Load] (ruleMap ex_loaded)"
    by (auto simp: range_order_def ex_loaded_def Load_def CpuUsage_def)
  from LoadRules_twice [OF alloc ex_load twice ex_range_order ro]
  have "\<exists>xs ys. snapshot [Load, CpuUsage] ex_loaded = Some xs
          \<and> snapshot [CpuUsage, Load] ex_loaded = Some ys \<and> mset xs = mset ys"
    by blast
  with alloc ex_load twice ex_range_order ro show ?thesis by simp
qed

section \<open>A failing update handler (C2)\<close>




section \<open>GetRules returns copies (C6)\<close>

text \<open>
  C6. Let the pointers of the index be nil or allocated, and let \<open>GetRules\<close> return the
  slice \<open>ret\<close>. The cells of \<open>ret\<close> are new ones, and any sequence of assignments to
  elements of \<open>ret\<close> (or to their fields) leaves \<open>ruleMap\<close> and every rule the index
  points to unchanged, so that a later \<open>GetRules\<close> returns what it would have returned
  before the assignments, and with the same range order the rules that the first call
  returned. The lemma \<open>getRules_shares_example\<close> shows the contrast: a write through a
  pointer that the internal \<open>getRules\<close> returns does change the snapshot.
\<close>

theorem GetRules_returns_copies:
  assumes wf: "wf_state s"
      and get: "GetRules ks s = Some (ret, s1)"
      and ws: "\<forall>w \<in> set ws. fst w \<in> set ret"
  shows "(\<forall>a \<in> set ret. length (heap s) \<le> a)
       \<and> ruleMap (mutate ws s1) = ruleMap s
       \<and> (\<forall>p \<in> set (getRules ks' s). p \<noteq> None \<longrightarrow>
            deref (heap (mutate ws s1)) p = deref (heap s) p)
       \<and> snapshot ks' (mutate ws s1) = snapshot ks' s
       \<and> snapshot ks s = Some (readSlice (heap s1) ret)
       \<and> snapshot ks (mutate ws s1) = Some (readSlice (heap s1) ret)"
proof -
  let ?h = "heap s"
  from get obtain h' where h': "copyRules (collect ks (ruleMap s)) ?h = Some h'"
    and ret: "ret = [length ?h..<length ?h + length (collect ks (ruleMap s))]"
    and s1: "s1 = s\<lparr>heap := h'\<rparr>"
    by (auto simp: GetRules_def Let_def split: option.splits)
  from copyRules_extends [OF h'] obtain ex where ex: "h' = ?h @ ex" ..
  from ws ret have fresh: "\<forall>w \<in> set ws. length ?h \<le> fst w" by auto
  from s1 ex have hs1: "heap s1 = ?h @ ex" by simp
  from mutate_fresh [OF fresh hs1] s1 obtain ex'
    where hm: "heap (mutate ws s1) = ?h @ ex'" and rm: "ruleMap (mutate ws s1) = ruleMap s"
    by auto
  have kept: "\<forall>p \<in> set (getRules ks' s). p \<noteq> None \<longrightarrow>
            deref (heap (mutate ws s1)) p = deref ?h p"
  proof (intro ballI impI)
    fix p assume "p \<in> set (getRules ks' s)" and "p \<noteq> None"
    with wf_state_collect [OF wf, of ks'] obtain a where "p = Some a" and "a < length ?h"
      by (auto simp: getRules_def allocated_def)
    then show "deref (heap (mutate ws s1)) p = deref ?h p"
      by (simp add: hm deref_def nth_append)
  qed
  have same: "snapshot ks' (mutate ws s1) = snapshot ks' s" for ks'
  proof -
    have p1: "\<forall>p \<in> set (collect ks' (ruleMap (mutate ws s1))). allocated ?h p"
      using wf_state_collect [OF wf, of ks'] rm by simp
    have p2: "\<forall>p \<in> set (collect ks' (ruleMap s)). allocated ?h p"
      using wf_state_collect [OF wf, of ks'] by simp
    have h0: "heap s = ?h @ []" by simp
    show ?thesis
      by (simp only: snapshot_over_prefix [OF p1 hm] snapshot_over_prefix [OF p2 h0] rm)
  qed
  have first: "snapshot ks s = Some (readSlice (heap s1) ret)"
    using get by (simp add: snapshot_def)
  from ret have cells: "\<forall>a \<in> set ret. length ?h \<le> a" by simp
  from cells rm kept same [of ks'] first same [of ks] show ?thesis by simp
qed

theorem GetRules_returns_copies_witness:
  "wf_state ex_loaded
   \<and> GetRules [Load, CpuUsage] ex_loaded = Some ([4, 5, 6], ex_copy)
   \<and> map fst ex_writes = [4, 6]
   \<and> readSlice (heap (mutate ex_writes ex_copy)) [4, 5, 6] \<noteq> readSlice (heap ex_copy) [4, 5, 6]
   \<and> ruleMap (mutate ex_writes ex_copy) = ruleMap ex_loaded
   \<and> snapshot [Load, CpuUsage] (mutate ex_writes ex_copy) =
       Some [ex_store ! 2, ex_store ! 3, ex_store ! 0]
   \<and> snapshot [CpuUsage, Load] (mutate ex_writes ex_copy) = snapshot [CpuUsage, Load] ex_loaded"
proof -
  have ws: "\<forall>w \<in> set ex_writes. fst w \<in> set [4, 5, 6]"
    by (simp add: ex_writes_def)
  have fs: "map fst ex_writes = [4, 6]"
    by (simp add: ex_writes_def)
  have r: "readSlice (heap ex_copy) [4, 5, 6] = [ex_store ! 2, ex_store ! 3, ex_store ! 0]"
    by (simp add: readSlice_def ex_copy_def ex_store_def)
  have changed: "readSlice (heap (mutate ex_writes ex_copy)) [4, 5, 6] \<noteq> readSlice (heap ex_copy) [4, 5, 6]"
    by (simp add: ex_mutate r) (simp add: readSlice_def ex_store_def)
  note t = GetRules_returns_copies [OF ex_wf_state ex_GetRules ws, of "[CpuUsage, Load]"]
  from t have a: "ruleMap (mutate ex_writes ex_copy) = ruleMap ex_loaded"
    by (elim conjE)
  from t have b: "snapshot [CpuUsage, Load] (mutate ex_writes ex_copy) = snapshot [CpuUsage, Load] ex_loaded"
    by (elim conjE)
  from t have "snapshot [Load, CpuUsage] (mutate ex_writes ex_copy) = Some (readSlice (heap ex_copy) [4, 5, 6])"
    by (elim conjE)
  with r have c: "snapshot [Load, CpuUsage] (mutate ex_writes ex_copy) =
       Some [ex_store ! 2, ex_store ! 3, ex_store ! 0]"
    by simp
  from ex_wf_state ex_GetRules fs changed a b c show ?thesis by (intro conjI)
qed

end
